theory Spec2Isabelle
  imports Complex_Main "HOL-Library.Char_ord" "HOL-Library.List_Lexorder"
begin

section \<open>Data model of package cavemap\<close>

text \<open>
  The Go type \<^verbatim>\<open>float64\<close> is idealised as \<^typ>\<open>real\<close>: rounding, infinities and
  NaN are outside this development. The Go type \<^verbatim>\<open>int\<close> is \<^typ>\<open>int\<close>; the one
  place where the code increments an id, the 64-bit wrap-around is written out. Every
  method holds the mutex of the map for its whole body, so a call is modelled on its
  own; what the code prints under \<^verbatim>\<open>debug\<close> is left out.
\<close>

definition START :: int where
  "START = 0"

definition REAL :: int where
  "REAL = 1"

record Station =
  Id :: int
  Name :: string
  FromId :: int
  Section :: string
  Type :: int
  Len :: real
  Azi :: real
  Depth :: real
  Lon :: real
  Lat :: real
  Comment :: string

text \<open>The zero value of the struct, which a Go composite literal completes.\<close>

definition zeroStation :: Station where
  "zeroStation = \<lparr>Id = 0, Name = [], FromId = 0, Section = [], Type = 0, Len = 0, Azi = 0,
     Depth = 0, Lon = 0, Lat = 0, Comment = []\<rparr>"

text \<open>
  The store \<^verbatim>\<open>Map.DB\<close> is a Go map from ids to station pointers. Each key holds a
  station object of its own, so a pointer is the key it is filed under.
\<close>

type_synonym DB = "int \<rightharpoonup> Station"

text \<open>
  The errors the package builds with \<^verbatim>\<open>fmt.Errorf\<close>, by the data their message carries.
  A parse error carries the line number and the role of the field; the collision that
  \<^verbatim>\<open>AddSurvey\<close> checks for carries the station found in the store.
\<close>

datatype error =
  DuplicateId string int
  | AlreadyInDB Station
  | DuplicateName string
  | UnknownStation string
  | EmptySurvey
  | ParseError nat string

text \<open>A call of a Go function either returns or panics.\<close>

datatype 'a outcome = Panic | Return 'a

text \<open>
  A \<^verbatim>\<open>range\<close> over a Go map visits every key once, in an order the language leaves
  open and that may differ from one loop to the next.
\<close>

definition rangeOrder :: "DB \<Rightarrow> int list \<Rightarrow> bool" where
  "rangeOrder db ks \<longleftrightarrow> distinct ks \<and> set ks = dom db"


section \<open>Azimuth rules\<close>

text \<open>Go's conversion \<^verbatim>\<open>int(x)\<close> truncates toward zero, and so does its integer division.\<close>

definition goInt :: "real \<Rightarrow> int" where
  "goInt x = (if 0 \<le> x then \<lfloor>x\<rfloor> else \<lceil>x\<rceil>)"

definition goQuot :: "int \<Rightarrow> int \<Rightarrow> int" where
  "goQuot a b = sgn a * sgn b * (\<bar>a\<bar> div \<bar>b\<bar>)"

definition averageAzimuth :: "real \<Rightarrow> real \<Rightarrow> real" where
  "averageAzimuth x0 y0 =
     (let x = (if x0 < y0 then y0 else x0);
          y = (if x0 < y0 then x0 else y0)
      in if goQuot (goInt x) 90 = 3 \<and> goQuot (goInt y) 90 = 0
         then (let a = x + (360 - x + y) / 2 in if a \<ge> 360 then a - 360 else a)
         else x - (x - y) / 2)"

definition reverseAzimuth :: "real \<Rightarrow> real" where
  "reverseAzimuth x = (if x < 180 then x + 180 else x - 180)"

text \<open>
  The spec's wording of the wrap-around rule: the bisector through the 360/0 boundary is
  the midpoint of the larger bearing and the smaller one moved up a full turn, reduced
  into the range from 0 to 360.
\<close>

definition reduce360 :: "real \<Rightarrow> real" where
  "reduce360 x = x - 360 * of_int \<lfloor>x / 360\<rfloor>"

definition bisectorThroughNorth :: "real \<Rightarrow> real \<Rightarrow> real" where
  "bisectorThroughNorth a b = reduce360 ((max a b + (min a b + 360)) / 2)"

section \<open>Parsing numbers\<close>

text \<open>
  \<^verbatim>\<open>strconv.ParseFloat\<close> belongs to the Go library, so the functions below take it as
  the parameter \<open>pf\<close>: the value of the text, or \<open>None\<close> where the library reports an
  error. \<open>decimalFloat\<close> is the library function on plain decimal literals (an optional
  sign, digits, an optional point and digits); it stands for \<open>pf\<close> at the concrete
  inputs of this development, whose numbers are all of that form.
\<close>

definition isDigit :: "char \<Rightarrow> bool" where
  "isDigit c \<longleftrightarrow> CHR ''0'' \<le> c \<and> c \<le> CHR ''9''"

definition digitsValue :: "string \<Rightarrow> nat" where
  "digitsValue ds = foldl (\<lambda>a c. 10 * a + (of_char c - 48)) 0 ds"

definition unsignedDecimal :: "string \<Rightarrow> real option" where
  "unsignedDecimal body =
     (let ip = takeWhile isDigit body; rest = dropWhile isDigit body
      in case rest of
           [] \<Rightarrow> if ip = [] then None else Some (real (digitsValue ip))
         | c # fr \<Rightarrow>
             if c = CHR ''.'' \<and> list_all isDigit fr \<and> (ip \<noteq> [] \<or> fr \<noteq> [])
             then Some (real (digitsValue ip) + real (digitsValue fr) / 10 ^ length fr)
             else None)"

definition decimalFloat :: "string \<Rightarrow> real option" where
  "decimalFloat s =
     (case s of
        [] \<Rightarrow> None
      | c # r \<Rightarrow>
          if c = CHR ''-'' then map_option uminus (unsignedDecimal r)
          else if c = CHR ''+'' then unsignedDecimal r
          else unsignedDecimal s)"

section \<open>ParseSurvey\<close>

definition tab :: char where
  "tab = CHR 0x09"

definition newline :: char where
  "newline = CHR 0x0A"

text \<open>\<^verbatim>\<open>strings.Split\<close> with a one-byte separator: the empty text gives one empty part.\<close>

fun Split :: "char \<Rightarrow> string \<Rightarrow> string list" where
  "Split c [] = [[]]"
| "Split c (x # xs) =
     (if x = c then [] # Split c xs
      else (case Split c xs of [] \<Rightarrow> [[x]] | w # ws \<Rightarrow> (x # w) # ws))"

text \<open>An index expression of Go panics out of range: \<open>None\<close> here.\<close>

definition idx :: "'a list \<Rightarrow> int \<Rightarrow> 'a option" where
  "idx xs i = (if 0 \<le> i \<and> i < int (length xs) then Some (xs ! nat i) else None)"

definition swapFields :: "string list \<Rightarrow> nat \<Rightarrow> nat \<Rightarrow> string list option" where
  "swapFields field i j =
     (if i < length field \<and> j < length field
      then Some (field[i := field ! j, j := field ! i]) else None)"

text \<open>
  The first loop over the fields of a line: \<open>i\<close> is the index of the field at the head,
  the triple holds \<^verbatim>\<open>hasempty\<close>, \<^verbatim>\<open>hascomment\<close> and \<^verbatim>\<open>last\<close> (here \<open>lst\<close>).
\<close>

fun scanFields ::
  "(string \<Rightarrow> real option) \<Rightarrow> nat \<Rightarrow> string list \<Rightarrow> bool \<times> bool \<times> int \<Rightarrow> bool \<times> bool \<times> int"
where
  "scanFields pf i [] st = st"
| "scanFields pf i (f # fs) (hasempty, hascomment, lst) =
     (if f = [] then scanFields pf (Suc i) fs (True, hascomment, lst)
      else scanFields pf (Suc i) fs
             (hasempty, hascomment \<or> (i \<noteq> 0 \<and> f \<noteq> ''-'' \<and> pf f = None), int i))"

text \<open>
  The normalisation of the fields, up to the \<^verbatim>\<open>switch\<close>: the fields and \<^verbatim>\<open>nfield\<close>.
  The write \<^verbatim>\<open>field[last]=""\<close> after \<^verbatim>\<open>last++\<close> is an index expression like any other.
\<close>

definition normalize :: "(string \<Rightarrow> real option) \<Rightarrow> string list \<Rightarrow> (string list \<times> nat) outcome" where
  "normalize pf field =
     (case scanFields pf 0 field (False, False, - 1) of (hasempty, hascomment, lst) \<Rightarrow>
        if hasempty \<and> lst \<noteq> - 1 then
          (case idx field lst of
             None \<Rightarrow> Panic
           | Some f \<Rightarrow>
               if pf f \<noteq> None then
                 (if lst + 1 < int (length field)
                  then Return (field[nat (lst + 1) := []], nat (lst + 1 + 1))
                  else Panic)
               else Return (field, nat (lst + 1)))
        else if \<not> hascomment then
          (if length field \<ge> 4 then Return (field @ [[]], length field + 1)
           else Return (field, length field))
        else Return (field, length field))"

record pstate =
  srv :: "Station list"
  start :: string
  label :: string
  reverse :: bool

text \<open>
  One line either lets the loop go on, or makes \<^verbatim>\<open>ParseSurvey\<close> return what it has
  with an error (the closure \<^verbatim>\<open>report\<close>), or panics.
\<close>

datatype step = Next pstate | Fail pstate error | Crash

definition number ::
  "(string \<Rightarrow> real option) \<Rightarrow> string list \<Rightarrow> int \<Rightarrow> nat \<Rightarrow> string \<Rightarrow> pstate \<Rightarrow> (real \<Rightarrow> step) \<Rightarrow> step"
where
  "number pf field i n msg st k =
     (case idx field i of
        None \<Rightarrow> Crash
      | Some f \<Rightarrow> (case pf f of None \<Rightarrow> Fail st (ParseError (n + 1) msg) | Some v \<Rightarrow> k v))"

definition fieldAt :: "string list \<Rightarrow> int \<Rightarrow> (string \<Rightarrow> step) \<Rightarrow> step" where
  "fieldAt field i k = (case idx field i of None \<Rightarrow> Crash | Some f \<Rightarrow> k f)"

definition anchorLine :: "(string \<Rightarrow> real option) \<Rightarrow> nat \<Rightarrow> string list \<Rightarrow> pstate \<Rightarrow> step" where
  "anchorLine pf n field st =
     fieldAt field 0 (\<lambda>f0.
     number pf field 1 n ''longitute'' st (\<lambda>lon.
     number pf field 2 n ''latitude'' st (\<lambda>lat.
       Next (st\<lparr>srv := srv st @
         [zeroStation\<lparr>Name := label st @ f0, Type := START, Lon := lon, Lat := lat\<rparr>]\<rparr>))))"

definition legLine :: "(string \<Rightarrow> real option) \<Rightarrow> nat \<Rightarrow> string list \<Rightarrow> pstate \<Rightarrow> step" where
  "legLine pf n field0 st =
     (case (if reverse st
            then Option.bind (swapFields field0 1 2) (\<lambda>f. swapFields f 2 3)
            else Some field0) of
        None \<Rightarrow> Crash
      | Some field \<Rightarrow>
          fieldAt field 0 (\<lambda>f0.
          number pf field 1 n ''azimuth'' st (\<lambda>azi.
          number pf field 2 n ''length'' st (\<lambda>len.
          number pf field 3 n ''depth'' st (\<lambda>depth.
          fieldAt field 4 (\<lambda>comment.
            Next (st\<lparr>srv := srv st @
              [zeroStation\<lparr>Name := label st @ f0, Type := REAL, Len := len, Azi := azi,
                 Depth := depth, Comment := comment\<rparr>]\<rparr>)))))))"

definition leg2Line :: "(string \<Rightarrow> real option) \<Rightarrow> nat \<Rightarrow> string list \<Rightarrow> pstate \<Rightarrow> step" where
  "leg2Line pf n field0 st =
     (case (if reverse st
            then Option.bind (swapFields field0 1 2) (\<lambda>f.
                 Option.bind (swapFields f 2 3) (\<lambda>g. swapFields g 3 4))
            else Some field0) of
        None \<Rightarrow> Crash
      | Some field \<Rightarrow>
          fieldAt field 0 (\<lambda>f0.
          number pf field 1 n ''azimuth1'' st (\<lambda>azi1.
          number pf field 2 n ''length'' st (\<lambda>len.
          fieldAt field 3 (\<lambda>f3.
          (if f3 \<noteq> ''-''
           then (\<lambda>k. number pf field 3 n ''azimuth2'' st (\<lambda>azi2. k (averageAzimuth azi1 azi2)))
           else (\<lambda>k. k azi1)) (\<lambda>azi.
          number pf field 4 n ''depth'' st (\<lambda>depth.
          fieldAt field 5 (\<lambda>comment.
            Next (st\<lparr>srv := srv st @
              [zeroStation\<lparr>Name := label st @ f0, Type := REAL, Len := len, Azi := azi,
                 Depth := depth, Comment := comment\<rparr>]\<rparr>)))))))))"

definition parseFields ::
  "(string \<Rightarrow> real option) \<Rightarrow> string \<Rightarrow> nat \<Rightarrow> string list \<Rightarrow> nat \<Rightarrow> pstate \<Rightarrow> step"
where
  "parseFields pf prefix n field nfield st =
     (if nfield = 1 then
        fieldAt field 0 (\<lambda>f0.
          if f0 = ''auto'' \<and> prefix \<noteq> [] then Next (st\<lparr>label := prefix\<rparr>)
          else if f0 = ''reverse'' then Next (st\<lparr>reverse := True\<rparr>)
          else Next (st\<lparr>start := f0\<rparr>))
      else if nfield = 3 then anchorLine pf n field st
      else if nfield = 5 then legLine pf n field st
      else if nfield = 6 then leg2Line pf n field st
      else Fail st (ParseError (n + 1) ''line''))"

text \<open>The loop over the lines; \<open>n\<close> is the index of the line at the head.\<close>

fun parseLines ::
  "(string \<Rightarrow> real option) \<Rightarrow> string \<Rightarrow> nat \<Rightarrow> string list \<Rightarrow> pstate \<Rightarrow> step"
where
  "parseLines pf prefix n [] st = Next st"
| "parseLines pf prefix n (line # rest) st =
     (if line = [] then parseLines pf prefix (Suc n) rest st
      else if hd line = CHR ''#'' then parseLines pf prefix (Suc n) rest st
      else (case normalize pf (Split tab line) of
              Panic \<Rightarrow> Crash
            | Return (field, nfield) \<Rightarrow>
                (case parseFields pf prefix n field nfield st of
                   Next st' \<Rightarrow> parseLines pf prefix (Suc n) rest st'
                 | Fail st' e \<Rightarrow> Fail st' e
                 | Crash \<Rightarrow> Crash)))"

text \<open>\<^verbatim>\<open>fmt.Sprintf("%v", i)\<close> for a number that is not negative.\<close>

fun showNat :: "nat \<Rightarrow> string" where
  "showNat n =
     (if n < 10 then [''0123456789'' ! n]
      else showNat (n div 10) @ [''0123456789'' ! (n mod 10)])"

declare showNat.simps [simp del]

text \<open>The loop that renames and turns the bearings of a reversed survey.\<close>

definition renumber :: "string \<Rightarrow> Station list \<Rightarrow> Station list" where
  "renumber prefix ss =
     map (\<lambda>(i, s). s\<lparr>Name := prefix @ showNat (i + 1), Azi := reverseAzimuth (Azi s)\<rparr>)
       (enumerate 0 ss)"

definition initial :: pstate where
  "initial = \<lparr>srv = [], start = ''START'', label = [], reverse = False\<rparr>"

definition ParseSurvey ::
  "(string \<Rightarrow> real option) \<Rightarrow> string \<Rightarrow> string \<Rightarrow> (Station list \<times> string \<times> error option) outcome"
where
  "ParseSurvey pf txt prefix =
     (case parseLines pf prefix 0 (Split newline txt) initial of
        Crash \<Rightarrow> Panic
      | Fail st e \<Rightarrow> Return (srv st, start st, Some e)
      | Next st \<Rightarrow>
          Return
            (if reverse st
             then (if prefix \<noteq> [] then renumber prefix (rev (srv st)) else rev (srv st))
             else srv st,
             start st, None))"

section \<open>The station store\<close>

fun AddLocalSurvey :: "DB \<Rightarrow> Station list \<Rightarrow> DB \<times> error option" where
  "AddLocalSurvey db [] = (db, None)"
| "AddLocalSurvey db (s # survey) =
     (case db (Id s) of
        Some _ \<Rightarrow> (db, Some (DuplicateId (Name s) (Id s)))
      | None \<Rightarrow> AddLocalSurvey (db(Id s \<mapsto> s)) survey)"

text \<open>
  The inner loop of \<^verbatim>\<open>ValidSurvey\<close> searches the store for a station of the given name
  and does nothing else, so its outcome does not depend on the order of the range.
  \<^verbatim>\<open>ValidSurvey\<close> only reads the store; the store it leaves is returned to say so.
\<close>

definition nameInStore :: "DB \<Rightarrow> string \<Rightarrow> bool" where
  "nameInStore db n \<longleftrightarrow> (\<exists>s1 \<in> ran db. n = Name s1)"

fun ValidSurvey :: "DB \<Rightarrow> Station list \<Rightarrow> DB \<times> error option" where
  "ValidSurvey db [] = (db, None)"
| "ValidSurvey db (s # rest) =
     (if Name s \<noteq> ''START'' \<and> nameInStore db (Name s)
      then (db, Some (DuplicateName (Name s)))
      else ValidSurvey db rest)"







section \<open>Walking the tree\<close>

text \<open>
  \<^verbatim>\<open>forEachStation\<close> as a relation between the state before and after a call that
  returns. The state is the store and whatever the callback \<open>pre\<close> collects. The callback
  is given the keys of the two stations it gets pointers to; it yields \<open>None\<close> when it
  dereferences a nil pointer. Every range picks an order of its own. A walk that recurses
  for ever (a cycle of \<^verbatim>\<open>FromId\<close>) has no final state.
\<close>

inductive
  forEachStation ::
    "(int \<Rightarrow> int \<Rightarrow> DB \<times> 'a \<Rightarrow> (DB \<times> 'a) option) \<Rightarrow> int \<Rightarrow> DB \<times> 'a \<Rightarrow> DB \<times> 'a \<Rightarrow> bool"
  and rangeStations ::
    "(int \<Rightarrow> int \<Rightarrow> DB \<times> 'a \<Rightarrow> (DB \<times> 'a) option) \<Rightarrow> int \<Rightarrow> int list \<Rightarrow> DB \<times> 'a \<Rightarrow> DB \<times> 'a \<Rightarrow> bool"
  for pre :: "int \<Rightarrow> int \<Rightarrow> DB \<times> 'a \<Rightarrow> (DB \<times> 'a) option"
where
  walk: "rangeOrder (fst \<sigma>) ks \<Longrightarrow> rangeStations pre i ks \<sigma> \<sigma>' \<Longrightarrow> forEachStation pre i \<sigma> \<sigma>'"
| range_nil: "rangeStations pre i [] \<sigma> \<sigma>"
| range_skip: "fst \<sigma> k = Some s \<Longrightarrow> FromId s \<noteq> i \<Longrightarrow> rangeStations pre i ks \<sigma> \<sigma>'
         \<Longrightarrow> rangeStations pre i (k # ks) \<sigma> \<sigma>'"
| range_visit: "fst \<sigma> k = Some s \<Longrightarrow> FromId s = i \<Longrightarrow> pre (FromId s) k \<sigma> = Some \<sigma>1
         \<Longrightarrow> fst \<sigma>1 k = Some s1 \<Longrightarrow> forEachStation pre (Id s1) \<sigma>1 \<sigma>2
         \<Longrightarrow> rangeStations pre i ks \<sigma>2 \<sigma>'
         \<Longrightarrow> rangeStations pre i (k # ks) \<sigma> \<sigma>'"

section \<open>PropagateLocation\<close>








section \<open>The order of names\<close>

text \<open>
  The three patterns of \<^verbatim>\<open>byName.Less\<close>. The class \<^verbatim>\<open>[a-zA-z]\<close> is the bytes from
  \<^verbatim>\<open>A\<close> to \<^verbatim>\<open>z\<close>. \<^verbatim>\<open>MatchString\<close> looks for a match anywhere in the name, and a
  match of \<^verbatim>\<open>[a-zA-z]+[0-9]+\<close> is there exactly when a byte of the class stands right
  before a digit. \<^verbatim>\<open>Find\<close> with a pattern \<^verbatim>\<open>c+\<close> gives the first longest run of the class.
\<close>

definition isLetter :: "char \<Rightarrow> bool" where
  "isLetter c \<longleftrightarrow> CHR ''A'' \<le> c \<and> c \<le> CHR ''z''"

fun matchLettersDigits :: "string \<Rightarrow> bool" where
  "matchLettersDigits (c # d # r) = ((isLetter c \<and> isDigit d) \<or> matchLettersDigits (d # r))"
| "matchLettersDigits _ = False"

definition findRun :: "(char \<Rightarrow> bool) \<Rightarrow> string \<Rightarrow> string option" where
  "findRun P s =
     (let r = takeWhile P (dropWhile (\<lambda>c. \<not> P c) s) in if r = [] then None else Some r)"

definition Less :: "(string \<Rightarrow> real option) \<Rightarrow> string \<Rightarrow> string \<Rightarrow> bool" where
  "Less pf si sj =
     (let ret = (si < sj) in
      if si = ''START'' then True
      else if sj = ''START'' then False
      else if \<not> matchLettersDigits si \<or> \<not> matchLettersDigits sj then ret
      else
        (case findRun isLetter si of None \<Rightarrow> ret | Some p1 \<Rightarrow>
         case findRun isLetter sj of None \<Rightarrow> ret | Some p2 \<Rightarrow>
           if p1 \<noteq> p2 then ret
           else
             (case findRun isDigit si of None \<Rightarrow> ret | Some n1 \<Rightarrow>
              case findRun isDigit sj of None \<Rightarrow> ret | Some n2 \<Rightarrow>
              case pf n1 of None \<Rightarrow> ret | Some f1 \<Rightarrow>
              case pf n2 of None \<Rightarrow> ret | Some f2 \<Rightarrow> f1 < f2)))"

text \<open>
  \<^verbatim>\<open>sort.Sort\<close> belongs to the Go library. On a slice of at most 12 elements it is the
  library's insertion sort: for \<open>i\<close> from 1, the element at \<open>j = i\<close> is swapped down
  while \<^verbatim>\<open>Less(j, j-1)\<close> holds. Longer slices are outside this development.
\<close>

fun sinkDown :: "('a \<Rightarrow> 'a \<Rightarrow> bool) \<Rightarrow> 'a list \<Rightarrow> nat \<Rightarrow> 'a list" where
  "sinkDown lt xs 0 = xs"
| "sinkDown lt xs (Suc j) =
     (if lt (xs ! Suc j) (xs ! j)
      then sinkDown lt (xs[Suc j := xs ! j, j := xs ! Suc j]) j
      else xs)"

definition insertionSort :: "('a \<Rightarrow> 'a \<Rightarrow> bool) \<Rightarrow> 'a list \<Rightarrow> 'a list" where
  "insertionSort lt xs = foldl (sinkDown lt) xs [1..<length xs]"

definition sortByName :: "(string \<Rightarrow> real option) \<Rightarrow> string list \<Rightarrow> string list" where
  "sortByName pf names = insertionSort (Less pf) names"

section \<open>Marshal\<close>

text \<open>
  The feature collection that \<^verbatim>\<open>Marshal\<close> hands to the GeoJSON library, which writes
  the features in the order of the list. The properties of a feature are listed by key.
\<close>

datatype geometry =
  Point real real
  | LineString "(real \<times> real) list"
  | GeometryCollection "geometry list"

datatype property = Text string | Number real

datatype feature = Feature geometry "(string \<times> property) list"

text \<open>
  The first loop: the names in the order \<open>ks\<close> of the range, and the map from a name to
  the station that was filed under it last.
\<close>

definition collectNames :: "DB \<Rightarrow> int list \<Rightarrow> string list \<times> (string \<rightharpoonup> Station)" where
  "collectNames db ks =
     foldl (\<lambda>(name, nameToStation) i.
              case db i of
                None \<Rightarrow> (name, nameToStation)
              | Some s \<Rightarrow> (name @ [Name s], nameToStation(Name s \<mapsto> s)))
       ([], Map.empty) ks"

definition pointFeature :: "(string \<rightharpoonup> Station) \<Rightarrow> string \<Rightarrow> feature option" where
  "pointFeature nameToStation n =
     (case nameToStation n of
        None \<Rightarrow> None
      | Some s \<Rightarrow>
          Some (Feature (Point (Lon s) (Lat s))
                  [(''comment'', Text (Comment s)), (''depth'', Number (Depth s)),
                   (''name'', Text n)]))"

definition pointFeatures ::
  "(string \<Rightarrow> real option) \<Rightarrow> DB \<Rightarrow> int list \<Rightarrow> feature list option"
where
  "pointFeatures pf db ks =
     (case collectNames db ks of
        (name, nameToStation) \<Rightarrow>
          those (map (pointFeature nameToStation) (sortByName pf name)))"

text \<open>The callback of the walk under an anchor: the state is \<^verbatim>\<open>co\<close> and \<^verbatim>\<open>reach\<close>.\<close>

definition appendStation ::
  "int \<Rightarrow> int \<Rightarrow> DB \<times> (real \<times> real) list \<times> int list
     \<Rightarrow> (DB \<times> (real \<times> real) list \<times> int list) option"
where
  "appendStation fk k \<sigma> =
     (case \<sigma> of (db, co, reach) \<Rightarrow>
        case db fk of None \<Rightarrow> None | Some f \<Rightarrow>
        case db k of None \<Rightarrow> None | Some s \<Rightarrow>
          Some (db, co @ [(Lon f, Lat f), (Lon s, Lat s)], reach @ [Id s]))"

fun segments :: "(real \<times> real) list \<Rightarrow> geometry list" where
  "segments (p # q # r) = LineString [p, q] # segments r"
| "segments _ = []"

text \<open>
  The loop over the anchors, in the order of its range: the features added to the
  collection so far, and \<^verbatim>\<open>reach\<close>.
\<close>

inductive anchorLines ::
  "DB \<Rightarrow> int list \<Rightarrow> feature list \<times> int list \<Rightarrow> feature list \<times> int list \<Rightarrow> bool"
  for db :: DB
where
  lines_nil: "anchorLines db [] acc acc"
| lines_skip: "db k = Some s \<Longrightarrow> Type s \<noteq> START \<Longrightarrow> anchorLines db ks acc acc'
          \<Longrightarrow> anchorLines db (k # ks) acc acc'"
| lines_anchor: "db k = Some s \<Longrightarrow> Type s = START
          \<Longrightarrow> forEachStation appendStation (Id s) (db, [], reach @ [Id s]) (db1, co, reach1)
          \<Longrightarrow> anchorLines db ks
                (fs @ [Feature (GeometryCollection (segments co)) [(''name'', Text (Name s))]],
                 reach1) acc'
          \<Longrightarrow> anchorLines db (k # ks) (fs, reach) acc'"

text \<open>
  \<^verbatim>\<open>Marshal\<close> relates the store to the feature collections a call can return: the
  point features, then the line features. The check of \<^verbatim>\<open>reach\<close> only prints, and the
  library writes a collection of finite numbers without error.
\<close>

definition Marshal :: "(string \<Rightarrow> real option) \<Rightarrow> DB \<Rightarrow> feature list \<Rightarrow> bool" where
  "Marshal pf db fc \<longleftrightarrow>
     (\<exists>ks1 ks2 points lines reach.
        rangeOrder db ks1 \<and> pointFeatures pf db ks1 = Some points \<and>
        rangeOrder db ks2 \<and> anchorLines db ks2 ([], []) (lines, reach) \<and>
        fc = points @ lines)"

section \<open>Properties of the azimuth rules\<close>

lemma goQuot_nonneg: "0 \<le> n \<Longrightarrow> goQuot n 90 = n div 90"
  unfolding goQuot_def by (cases "n = 0") (simp_all add: sgn_if)

lemma goInt_nonneg: "0 \<le> x \<Longrightarrow> goInt x = \<lfloor>x\<rfloor>"
  by (simp add: goInt_def)

lemma div90_3:
  fixes n :: int
  assumes "0 \<le> n" "n < 360"
  shows "n div 90 = 3 \<longleftrightarrow> 270 \<le> n"
proof -
  have m: "n = 90 * (n div 90) + n mod 90" by simp
  have r: "0 \<le> n mod 90" "n mod 90 < 90" by simp_all
  show ?thesis using assms m r by linarith
qed

lemma div90_0:
  fixes n :: int
  assumes "0 \<le> n"
  shows "n div 90 = 0 \<longleftrightarrow> n < 90"
proof -
  have m: "n = 90 * (n div 90) + n mod 90" by simp
  have r: "0 \<le> n mod 90" "n mod 90 < 90" by simp_all
  have p: "0 \<le> n div 90" using assms by (simp add: pos_imp_zdiv_nonneg_iff)
  show ?thesis using assms m r p by linarith
qed

lemma quadrant_3:
  assumes "0 \<le> x" "x < 360"
  shows "goQuot (goInt x) 90 = 3 \<longleftrightarrow> 270 \<le> x"
proof -
  have f0: "0 \<le> \<lfloor>x\<rfloor>" using assms by simp
  have f1: "\<lfloor>x\<rfloor> < 360" using assms by (simp add: floor_less_iff)
  have f2: "270 \<le> x \<longleftrightarrow> 270 \<le> \<lfloor>x\<rfloor>" by (simp add: le_floor_iff)
  have e: "goQuot (goInt x) 90 = \<lfloor>x\<rfloor> div 90"
    unfolding goInt_nonneg[OF assms(1)] by (rule goQuot_nonneg[OF f0])
  show ?thesis unfolding e f2 by (rule div90_3[OF f0 f1])
qed

lemma quadrant_0:
  assumes "0 \<le> x" "x < 360"
  shows "goQuot (goInt x) 90 = 0 \<longleftrightarrow> x < 90"
proof -
  have f0: "0 \<le> \<lfloor>x\<rfloor>" using assms by simp
  have f2: "x < 90 \<longleftrightarrow> \<lfloor>x\<rfloor> < 90" by (simp add: floor_less_iff)
  have e: "goQuot (goInt x) 90 = \<lfloor>x\<rfloor> div 90"
    unfolding goInt_nonneg[OF assms(1)] by (rule goQuot_nonneg[OF f0])
  show ?thesis unfolding e f2 by (rule div90_0[OF f0])
qed

lemma reduce360_low: "0 \<le> x \<Longrightarrow> x < 360 \<Longrightarrow> reduce360 x = x"
  unfolding reduce360_def by (simp add: floor_eq_iff)

lemma reduce360_high:
  assumes "360 \<le> x" "x < 720"
  shows "reduce360 x = x - 360"
proof -
  have "\<lfloor>x / 360\<rfloor> = 1" using assms by (simp add: floor_eq_iff)
  then show ?thesis unfolding reduce360_def by simp
qed

lemma averageAzimuth_ordered:
  assumes "0 \<le> y" "y \<le> x" "x < 360"
  shows "averageAzimuth x y =
    (if 270 \<le> x \<and> y < 90 then reduce360 ((x + (y + 360)) / 2) else (x + y) / 2)"
    and "averageAzimuth y x = averageAzimuth x y"
proof -
  have q3: "goQuot (goInt x) 90 = 3 \<longleftrightarrow> 270 \<le> x" using assms by (intro quadrant_3) auto
  have q0: "goQuot (goInt y) 90 = 0 \<longleftrightarrow> y < 90" using assms by (intro quadrant_0) auto
  have A: "averageAzimuth x y = (if 270 \<le> x \<and> y < 90
         then (let a = x + (360 - x + y) / 2 in if a \<ge> 360 then a - 360 else a)
         else x - (x - y) / 2)"
  proof -
    have o: "\<not> x < y" using assms by simp
    show ?thesis unfolding averageAzimuth_def by (simp only: o if_False Let_def q3 q0)
  qed
  show "averageAzimuth x y =
    (if 270 \<le> x \<and> y < 90 then reduce360 ((x + (y + 360)) / 2) else (x + y) / 2)"
  proof (cases "270 \<le> x \<and> y < 90")
    case False
    have "averageAzimuth x y = x - (x - y) / 2" unfolding A by (rule if_not_P[OF False])
    also have "\<dots> = (x + y) / 2" by (simp add: field_simps)
    finally have e: "averageAzimuth x y = (x + y) / 2" .
    show ?thesis unfolding e by (rule if_not_P[OF False, symmetric])
  next
    case True
    define a where "a = (x + (y + 360)) / 2"
    have a_eq: "x + (360 - x + y) / 2 = a" unfolding a_def by (simp add: field_simps)
    have lo: "0 \<le> a" and hi: "a < 720" using assms True unfolding a_def by auto
    have B: "averageAzimuth x y = (if a \<ge> 360 then a - 360 else a)"
      unfolding A a_eq Let_def using True by simp
    have "reduce360 a = (if a \<ge> 360 then a - 360 else a)"
    proof (cases "360 \<le> a")
      case True
      then show ?thesis using reduce360_high[OF True hi] by simp
    next
      case False
      then have "a < 360" by simp
      then show ?thesis using reduce360_low[OF lo] False by simp
    qed
    then have "averageAzimuth x y = reduce360 a" using B by simp
    then have e: "averageAzimuth x y = reduce360 ((x + (y + 360)) / 2)" unfolding a_def .
    show ?thesis unfolding e by (rule if_P[OF True, symmetric])
  qed
  show "averageAzimuth y x = averageAzimuth x y"
  proof (cases "x = y")
    case True
    then show ?thesis by simp
  next
    case False
    then have o: "y < x" "\<not> x < y" using assms by auto
    show ?thesis unfolding averageAzimuth_def by (simp only: o if_True if_False)
  qed
qed

text \<open>
  Claim C6. For bearings \<open>a\<close> and \<open>b\<close> from 0 up to but not including 360: if the larger
  is at least 270 and the smaller is below 90, \<open>averageAzimuth a b\<close> is the bisector through
  the 360/0 boundary, reduced into the range from 0 to 360; otherwise it is the
  arithmetic midpoint of the two.
\<close>

theorem averageAzimuth_wrap:
  assumes "0 \<le> a" "a < 360" "0 \<le> b" "b < 360"
  shows "averageAzimuth a b =
    (if 270 \<le> max a b \<and> min a b < 90 then bisectorThroughNorth a b else (a + b) / 2)"
proof (cases "b \<le> a")
  case True
  then have m: "max a b = a" "min a b = b" by auto
  show ?thesis unfolding bisectorThroughNorth_def m
    using averageAzimuth_ordered(1)[OF assms(3) True assms(2)] .
next
  case False
  then have le: "a \<le> b" by simp
  then have m: "max a b = b" "min a b = a" by auto
  have c: "(b + a) / 2 = (a + b) / 2" by simp
  have "averageAzimuth a b = averageAzimuth b a"
    using averageAzimuth_ordered(2)[OF assms(1) le assms(4)] .
  then show ?thesis unfolding bisectorThroughNorth_def m
    using averageAzimuth_ordered(1)[OF assms(1) le assms(4)] by (simp only: c)
qed

text \<open>The rule at 350 and 20 (through north) and at 100 and 40 (the midpoint).\<close>

theorem averageAzimuth_wrap_witness:
  "averageAzimuth 350 20 = 5 \<and> averageAzimuth 100 40 = 70"
proof -
  have r: "reduce360 365 = 5" using reduce360_high[of 365] by simp
  have "averageAzimuth 350 20 = 5"
    using averageAzimuth_wrap[of 350 20] r by (simp add: bisectorThroughNorth_def)
  moreover have "averageAzimuth 100 40 = 70"
    using averageAzimuth_wrap[of 100 40] by simp
  ultimately show ?thesis by simp
qed

section \<open>Properties of the parser\<close>

lemma decimalFloat_5: "decimalFloat ''5'' = Some 5"
  by code_simp

lemma Split_interior_empty: "Split tab (''a'' @ [tab, tab] @ ''5'') = [''a'', [], ''5'']"
  by (simp add: tab_def)

lemma normalize_interior_empty: "normalize decimalFloat [''a'', [], ''5''] = Panic"
  by (simp add: normalize_def idx_def decimalFloat_5)

text \<open>
  Claim C2 says that \<open>ParseSurvey\<close> never ends the process and that the normalisation never
  writes out of bounds. The code does: on the one-line text of the fields \<^verbatim>\<open>a\<close>, empty,
  \<^verbatim>\<open>5\<close> the last field that is not empty is the last field of the line and parses as a
  number, so \<^verbatim>\<open>last++\<close> leaves the slice and the write panics, whatever the prefix.
\<close>

theorem ParseSurvey_panics:
  "ParseSurvey decimalFloat (''a'' @ [tab, tab] @ ''5'') prefix = Panic"
proof -
  have "Split newline (''a'' @ [tab, tab] @ ''5'') = [''a'' @ [tab, tab] @ ''5'']"
    by (simp add: tab_def newline_def)
  then show ?thesis
    using Split_interior_empty normalize_interior_empty by (simp add: ParseSurvey_def)
qed

text \<open>
  A survey to be reversed: the directive, then two legs. After the directive the fields
  of a leg are read as name, depth, azimuth, length, comment.
\<close>

definition reversedText :: string where
  "reversedText =
     ''reverse'' @ [newline] @
     ''A'' @ [tab] @ ''1'' @ [tab] @ ''2'' @ [tab] @ ''3'' @ [tab] @ ''x'' @ [newline] @
     ''B'' @ [tab] @ ''4'' @ [tab] @ ''5'' @ [tab] @ ''6'' @ [tab] @ ''y''"

text \<open>
  Claim C1 says that a \<^verbatim>\<open>reverse\<close> directive reverses the stations and turns every
  bearing with \<open>reverseAzimuth\<close> under every prefix, the empty one too. The code turns the
  bearings inside the loop that renumbers, which runs only when the prefix is not empty:
  under the empty prefix the stations come back in reverse order with the bearings 5 and
  2 as parsed, under the prefix \<^verbatim>\<open>P\<close> with the bearings 185 and 182.
\<close>

theorem ParseSurvey_reverse_keeps_bearings:
  "ParseSurvey decimalFloat reversedText [] =
     Return
       ([zeroStation\<lparr>Name := ''B'', Type := REAL, Len := 6, Azi := 5, Depth := 4, Comment := ''y''\<rparr>,
         zeroStation\<lparr>Name := ''A'', Type := REAL, Len := 3, Azi := 2, Depth := 1, Comment := ''x''\<rparr>],
        ''START'', None) \<and>
   ParseSurvey decimalFloat reversedText ''P'' =
     Return
       ([zeroStation\<lparr>Name := ''P1'', Type := REAL, Len := 6, Azi := 185, Depth := 4, Comment := ''y''\<rparr>,
         zeroStation\<lparr>Name := ''P2'', Type := REAL, Len := 3, Azi := 182, Depth := 1, Comment := ''x''\<rparr>],
        ''START'', None) \<and>
   reverseAzimuth 5 = 185 \<and> reverseAzimuth 2 = 182"
  by code_simp

section \<open>Properties of the order of names\<close>

text \<open>
  Claim C8. Sorting the names \<^verbatim>\<open>CsFree2\<close>, \<^verbatim>\<open>START\<close>, \<^verbatim>\<open>CsFree1\<close>, \<^verbatim>\<open>CsFree10\<close> with
  the comparator of the exporter gives \<^verbatim>\<open>START\<close>, \<^verbatim>\<open>CsFree1\<close>, \<^verbatim>\<open>CsFree2\<close>,
  \<^verbatim>\<open>CsFree10\<close>: the sentinel first, then by the number after the letters, where the
  order of the bytes would put \<^verbatim>\<open>CsFree10\<close> before \<^verbatim>\<open>CsFree2\<close>.
\<close>

theorem sortByName_numeric_suffix:
  "sortByName decimalFloat [''CsFree2'', ''START'', ''CsFree1'', ''CsFree10''] =
     [''START'', ''CsFree1'', ''CsFree2'', ''CsFree10''] \<and>
   (''CsFree10'' :: string) < ''CsFree2''"
  by code_simp

section \<open>Properties of the store\<close>

lemma ValidSurvey_store: "fst (ValidSurvey db survey) = db"
  by (induction survey) auto

text \<open>
  Claim C9. When a station of the candidate survey has a name other than \<^verbatim>\<open>START\<close> that
  a station of the store has too, \<open>ValidSurvey\<close> returns a duplicate-name error (for a
  name of the survey that is in the store and is not \<^verbatim>\<open>START\<close>) and leaves the store
  exactly as it was.
\<close>

theorem ValidSurvey_duplicate:
  assumes "s \<in> set survey" and "Name s \<noteq> ''START''"
    and "db k = Some s1" and "Name s1 = Name s"
  shows "\<exists>n. ValidSurvey db survey = (db, Some (DuplicateName n)) \<and> n \<noteq> ''START'' \<and>
           nameInStore db n \<and> n \<in> Name ` set survey"
  using assms(1)
proof (induction survey)
  case Nil
  then show ?case by simp
next
  case (Cons a survey)
  have inStore: "nameInStore db (Name s)"
    unfolding nameInStore_def using assms(3,4) by (auto simp: ran_def)
  show ?case
  proof (cases "Name a \<noteq> ''START'' \<and> nameInStore db (Name a)")
    case True
    then show ?thesis by auto
  next
    case False
    then have "a \<noteq> s" using inStore assms(2) by auto
    then have "s \<in> set survey" using Cons.prems by simp
    then obtain n where "ValidSurvey db survey = (db, Some (DuplicateName n))"
      "n \<noteq> ''START''" "nameInStore db n" "n \<in> Name ` set survey"
      using Cons.IH by blast
    then show ?thesis using False by auto
  qed
qed

text \<open>A store of one anchor named \<^verbatim>\<open>A\<close>.\<close>

definition storeA :: DB where
  "storeA = Map.empty(1 \<mapsto> zeroStation\<lparr>Id := 1, Name := ''A'', FromId := - 1\<rparr>)"

text \<open>The survey of \<^verbatim>\<open>B\<close> and \<^verbatim>\<open>A\<close> against that store: the error names \<^verbatim>\<open>A\<close>.\<close>

theorem ValidSurvey_duplicate_witness:
  "ValidSurvey storeA [zeroStation\<lparr>Name := ''B''\<rparr>, zeroStation\<lparr>Name := ''A''\<rparr>] =
     (storeA, Some (DuplicateName ''A''))"
proof -
  have "\<exists>n. ValidSurvey storeA [zeroStation\<lparr>Name := ''B''\<rparr>, zeroStation\<lparr>Name := ''A''\<rparr>] =
      (storeA, Some (DuplicateName n)) \<and> n \<noteq> ''START'' \<and> nameInStore storeA n \<and>
      n \<in> Name ` set [zeroStation\<lparr>Name := ''B''\<rparr>, zeroStation\<lparr>Name := ''A''\<rparr>]"
    by (rule ValidSurvey_duplicate[where s = "zeroStation\<lparr>Name := ''A''\<rparr>" and k = 1
          and ?s1.0 = "zeroStation\<lparr>Id := 1, Name := ''A'', FromId := - 1\<rparr>"])
       (simp_all add: storeA_def)
  then obtain n where r: "ValidSurvey storeA [zeroStation\<lparr>Name := ''B''\<rparr>, zeroStation\<lparr>Name := ''A''\<rparr>] =
      (storeA, Some (DuplicateName n))" and "nameInStore storeA n" by blast
  then have "n = ''A''" by (simp add: nameInStore_def storeA_def)
  then show ?thesis using r by simp
qed

text \<open>
  Claim C10. \<open>AddLocalSurvey\<close> is not atomic: when the station at index \<open>k\<close> is the first
  whose id is in the store already or repeats the id of an earlier station of the survey,
  the call returns a duplicate-id error for that station, and the stations at the indices
  below \<open>k\<close> are in the store it leaves; every other key is as before.
\<close>

theorem AddLocalSurvey_not_atomic:
  assumes "k < length survey"
    and "\<forall>i<k. Id (survey ! i) \<notin> dom db \<union> Id ` set (take i survey)"
    and "Id (survey ! k) \<in> dom db \<union> Id ` set (take k survey)"
  shows "\<exists>db'. AddLocalSurvey db survey =
           (db', Some (DuplicateId (Name (survey ! k)) (Id (survey ! k)))) \<and>
         (\<forall>i<k. db' (Id (survey ! i)) = Some (survey ! i)) \<and>
         (\<forall>j. j \<notin> Id ` set (take k survey) \<longrightarrow> db' j = db j)"
  using assms
proof (induction survey arbitrary: db k)
  case Nil
  then show ?case by simp
next
  case (Cons s survey)
  show ?case
  proof (cases k)
    case 0
    then show ?thesis using Cons.prems by auto
  next
    case (Suc k')
    have fresh: "db (Id s) = None" using Cons.prems(2)[rule_format, of 0] Suc by auto
    have p1: "k' < length survey" using Cons.prems(1) Suc by simp
    have p2: "\<forall>i<k'. Id (survey ! i) \<notin> dom (db(Id s \<mapsto> s)) \<union> Id ` set (take i survey)"
    proof (intro allI impI)
      fix i assume "i < k'"
      then have "Id ((s # survey) ! Suc i) \<notin> dom db \<union> Id ` set (take (Suc i) (s # survey))"
        using Cons.prems(2) Suc by blast
      then show "Id (survey ! i) \<notin> dom (db(Id s \<mapsto> s)) \<union> Id ` set (take i survey)" by auto
    qed
    have p3: "Id (survey ! k') \<in> dom (db(Id s \<mapsto> s)) \<union> Id ` set (take k' survey)"
      using Cons.prems(3) Suc by auto
    obtain db' where r: "AddLocalSurvey (db(Id s \<mapsto> s)) survey =
           (db', Some (DuplicateId (Name (survey ! k')) (Id (survey ! k'))))"
      and kept: "\<forall>i<k'. db' (Id (survey ! i)) = Some (survey ! i)"
      and other: "\<forall>j. j \<notin> Id ` set (take k' survey) \<longrightarrow> db' j = (db(Id s \<mapsto> s)) j"
      using Cons.IH[OF p1 p2 p3] by blast
    have notin: "Id s \<notin> Id ` set (take k' survey)"
    proof
      assume "Id s \<in> Id ` set (take k' survey)"
      then obtain i where i: "i < k'" "i < length survey" "Id (survey ! i) = Id s"
        by (auto simp: in_set_conv_nth)
      then show False using p2 by auto
    qed
    have first: "db' (Id s) = Some s" using other notin by simp
    have "AddLocalSurvey db (s # survey) =
        (db', Some (DuplicateId (Name ((s # survey) ! k)) (Id ((s # survey) ! k))))"
      using fresh r Suc by simp
    moreover have "\<forall>i<k. db' (Id ((s # survey) ! i)) = Some ((s # survey) ! i)"
    proof (intro allI impI)
      fix i assume "i < k"
      then show "db' (Id ((s # survey) ! i)) = Some ((s # survey) ! i)"
        using first kept Suc by (cases i) auto
    qed
    moreover have "\<forall>j. j \<notin> Id ` set (take k (s # survey)) \<longrightarrow> db' j = db j"
      using other Suc by auto
    ultimately show ?thesis by blast
  qed
qed

text \<open>
  Ids 2, 1, 3 against the store of id 1: the error is for the second station, and the
  first one stays in the store.
\<close>

theorem AddLocalSurvey_not_atomic_witness:
  "AddLocalSurvey storeA
     [zeroStation\<lparr>Id := 2, Name := ''B''\<rparr>, zeroStation\<lparr>Id := 1, Name := ''C''\<rparr>,
      zeroStation\<lparr>Id := 3, Name := ''D''\<rparr>] =
   (storeA(2 \<mapsto> zeroStation\<lparr>Id := 2, Name := ''B''\<rparr>), Some (DuplicateId ''C'' 1))"
proof -
  let ?sv = "[zeroStation\<lparr>Id := 2, Name := ''B''\<rparr>, zeroStation\<lparr>Id := 1, Name := ''C''\<rparr>,
      zeroStation\<lparr>Id := 3, Name := ''D''\<rparr>]"
  have "\<exists>db'. AddLocalSurvey storeA ?sv =
           (db', Some (DuplicateId (Name (?sv ! 1)) (Id (?sv ! 1)))) \<and>
         (\<forall>i<1. db' (Id (?sv ! i)) = Some (?sv ! i)) \<and>
         (\<forall>j. j \<notin> Id ` set (take 1 ?sv) \<longrightarrow> db' j = storeA j)"
    by (rule AddLocalSurvey_not_atomic) (simp_all add: storeA_def zeroStation_def)
  then obtain db' where r: "AddLocalSurvey storeA ?sv = (db', Some (DuplicateId ''C'' 1))"
    and k: "db' 2 = Some (zeroStation\<lparr>Id := 2, Name := ''B''\<rparr>)"
    and o: "\<forall>j. j \<noteq> 2 \<longrightarrow> db' j = storeA j"
    by (auto simp: zeroStation_def)
  have "db' = storeA(2 \<mapsto> zeroStation\<lparr>Id := 2, Name := ''B''\<rparr>)"
    using k o by (intro ext) auto
  then show ?thesis using r by simp
qed


section \<open>Properties of AddSurvey\<close>





















section \<open>Properties of the walk\<close>

lemma rangeStations_no_children:
  "set ks \<subseteq> dom (fst \<sigma>) \<Longrightarrow> \<forall>k s. fst \<sigma> k = Some s \<longrightarrow> FromId s \<noteq> i
     \<Longrightarrow> rangeStations pre i ks \<sigma> \<sigma>"
proof (induction ks)
  case Nil
  show ?case by (rule range_nil)
next
  case (Cons k ks)
  then obtain s where s: "fst \<sigma> k = Some s" by auto
  then have "FromId s \<noteq> i" using Cons.prems(2) by blast
  moreover have "rangeStations pre i ks \<sigma> \<sigma>" using Cons by simp
  ultimately show ?case using s by (intro range_skip)
qed

lemma forEachStation_no_children:
  assumes "rangeOrder (fst \<sigma>) ks" and "\<forall>k s. fst \<sigma> k = Some s \<longrightarrow> FromId s \<noteq> i"
  shows "forEachStation pre i \<sigma> \<sigma>"
proof -
  have "set ks \<subseteq> dom (fst \<sigma>)" using assms(1) by (simp add: rangeOrder_def)
  then have "rangeStations pre i ks \<sigma> \<sigma>" using assms(2) by (rule rangeStations_no_children)
  then show ?thesis using assms(1) by (intro walk)
qed

lemma range_visit_leaf:
  assumes "fst \<sigma> k = Some s" and "FromId s = i" and "pre i k \<sigma> = Some \<sigma>1"
    and "fst \<sigma>1 k = Some s1" and "rangeOrder (fst \<sigma>1) ks0"
    and "\<forall>j t. fst \<sigma>1 j = Some t \<longrightarrow> FromId t \<noteq> Id s1"
    and "rangeStations pre i ks \<sigma>1 \<sigma>'"
  shows "rangeStations pre i (k # ks) \<sigma> \<sigma>'"
proof (rule range_visit[where s = s and ?s1.0 = s1 and ?\<sigma>1.0 = \<sigma>1 and ?\<sigma>2.0 = \<sigma>1])
  show "fst \<sigma> k = Some s" by fact
  show "FromId s = i" by fact
  show "pre (FromId s) k \<sigma> = Some \<sigma>1" using assms(2,3) by simp
  show "fst \<sigma>1 k = Some s1" by fact
  show "forEachStation pre (Id s1) \<sigma>1 \<sigma>1" using assms(5,6) by (rule forEachStation_no_children)
  show "rangeStations pre i ks \<sigma>1 \<sigma>'" by fact
qed

section \<open>Properties of Marshal\<close>

lemma rangeOrder_two:
  assumes "a \<noteq> b" and "dom db = {a, b}"
  shows "{ks. rangeOrder db ks} = {[a, b], [b, a]}"
proof (intro set_eqI iffI)
  fix ks assume "ks \<in> {ks. rangeOrder db ks}"
  then have d: "distinct ks" and s: "set ks = {a, b}" using assms(2) by (auto simp: rangeOrder_def)
  then have "length ks = 2" using assms(1) distinct_card[OF d] by simp
  then obtain x y where ks: "ks = [x, y]"
    by (metis (no_types, opaque_lifting) One_nat_def Suc_1 length_0_conv length_Suc_conv)
  then have "{x, y} = {a, b}" using s by simp
  then have "(x = a \<and> y = b) \<or> (x = b \<and> y = a)" using d ks by (auto simp: doubleton_eq_iff)
  then show "ks \<in> {[a, b], [b, a]}" using ks by auto
next
  fix ks assume "ks \<in> {[a, b], [b, a]}"
  then show "ks \<in> {ks. rangeOrder db ks}" using assms by (auto simp: rangeOrder_def)
qed

text \<open>The line feature of an anchor with no station under it.\<close>

definition bareLine :: "string \<Rightarrow> feature" where
  "bareLine n = Feature (GeometryCollection []) [(''name'', Text n)]"

lemma anchorLines_bare:
  assumes "rangeOrder db ks0" and "db a = Some sa" and "Type sa = START"
    and "db b = Some sb" and "Type sb = START"
    and "\<forall>k s. db k = Some s \<longrightarrow> FromId s \<noteq> Id sa \<and> FromId s \<noteq> Id sb"
  shows "anchorLines db [a, b] ([], []) ([bareLine (Name sa), bareLine (Name sb)], [Id sa, Id sb])"
proof -
  have w: "forEachStation appendStation i (db, co, reach) (db, co, reach)"
    if "i = Id sa \<or> i = Id sb" for i co reach
  proof (rule forEachStation_no_children)
    show "rangeOrder (fst (db, co, reach)) ks0" using assms(1) by simp
    show "\<forall>k s. fst (db, co, reach) k = Some s \<longrightarrow> FromId s \<noteq> i" using assms(6) that by auto
  qed
  have "anchorLines db [b] ([] @ [bareLine (Name sa)], [] @ [Id sa])
      ([bareLine (Name sa), bareLine (Name sb)], [Id sa, Id sb])"
  proof (rule lines_anchor[where s = sb and ?db1.0 = db and co = "[]" and ?reach1.0 = "[Id sa, Id sb]"])
    show "db b = Some sb" by fact
    show "Type sb = START" by fact
    show "forEachStation appendStation (Id sb) (db, [], ([] @ [Id sa]) @ [Id sb]) (db, [], [Id sa, Id sb])"
      using w[of "Id sb" "[]" "[Id sa, Id sb]"] by simp
    show "anchorLines db []
       (([] @ [bareLine (Name sa)]) @ [Feature (GeometryCollection (segments [])) [(''name'', Text (Name sb))]],
        [Id sa, Id sb])
       ([bareLine (Name sa), bareLine (Name sb)], [Id sa, Id sb])"
      using lines_nil[of db "([bareLine (Name sa), bareLine (Name sb)], [Id sa, Id sb])"]
      by (simp add: bareLine_def)
  qed
  then show ?thesis
    using w[of "Id sa" "[]" "[Id sa]"] assms(2,3)
      lines_anchor[where db = db and k = a and s = sa and reach = "[]" and ?db1.0 = db and co = "[]"
        and ?reach1.0 = "[Id sa]" and fs = "[]" and ks = "[b]"
        and acc' = "([bareLine (Name sa), bareLine (Name sb)], [Id sa, Id sb])"]
    by (simp add: bareLine_def)
qed

text \<open>A store of two anchors, \<^verbatim>\<open>A\<close> and \<^verbatim>\<open>B\<close>, and the point features of its stations.\<close>

definition anchorA :: Station where
  "anchorA = zeroStation\<lparr>Id := 1, Name := ''A'', FromId := - 1, Type := START, Lon := 1, Lat := 2\<rparr>"

definition anchorB :: Station where
  "anchorB = zeroStation\<lparr>Id := 2, Name := ''B'', FromId := - 1, Type := START, Lon := 3, Lat := 4\<rparr>"

definition storeAB :: DB where
  "storeAB = Map.empty(1 \<mapsto> anchorA, 2 \<mapsto> anchorB)"

definition pointsAB :: "feature list" where
  "pointsAB =
     [Feature (Point 1 2) [(''comment'', Text []), (''depth'', Number 0), (''name'', Text ''A'')],
      Feature (Point 3 4) [(''comment'', Text []), (''depth'', Number 0), (''name'', Text ''B'')]]"

lemma pointFeatures_AB: "pointFeatures decimalFloat storeAB [1, 2] = Some pointsAB"
  by code_simp

lemma rangeOrder_AB: "rangeOrder storeAB [1, 2]"
  by (auto simp: rangeOrder_def storeAB_def)

lemma no_children_AB: "\<forall>k s. storeAB k = Some s \<longrightarrow> FromId s \<noteq> Id anchorA \<and> FromId s \<noteq> Id anchorB"
  by (auto simp: storeAB_def anchorA_def anchorB_def split: if_splits)

lemma Marshal_anchors_vary:
  "Marshal decimalFloat storeAB (pointsAB @ [bareLine ''A'', bareLine ''B'']) \<and>
   Marshal decimalFloat storeAB (pointsAB @ [bareLine ''B'', bareLine ''A'']) \<and>
   pointsAB @ [bareLine ''A'', bareLine ''B''] \<noteq> pointsAB @ [bareLine ''B'', bareLine ''A'']"
proof (intro conjI)
  have a: "storeAB 1 = Some anchorA" "Type anchorA = START"
    and b: "storeAB 2 = Some anchorB" "Type anchorB = START"
    by (simp_all add: storeAB_def anchorA_def anchorB_def)
  have r21: "rangeOrder storeAB [2, 1]" by (auto simp: rangeOrder_def storeAB_def)
  have "anchorLines storeAB [1, 2] ([], []) ([bareLine (Name anchorA), bareLine (Name anchorB)], [Id anchorA, Id anchorB])"
    using anchorLines_bare[OF rangeOrder_AB a b] no_children_AB by blast
  then have l12: "anchorLines storeAB [1, 2] ([], []) ([bareLine ''A'', bareLine ''B''], [1, 2])"
    by (simp add: anchorA_def anchorB_def)
  have "anchorLines storeAB [2, 1] ([], []) ([bareLine (Name anchorB), bareLine (Name anchorA)], [Id anchorB, Id anchorA])"
    using anchorLines_bare[OF rangeOrder_AB b a] no_children_AB by blast
  then have l21: "anchorLines storeAB [2, 1] ([], []) ([bareLine ''B'', bareLine ''A''], [2, 1])"
    by (simp add: anchorA_def anchorB_def)
  show "Marshal decimalFloat storeAB (pointsAB @ [bareLine ''A'', bareLine ''B''])"
    unfolding Marshal_def using rangeOrder_AB pointFeatures_AB l12 by blast
  show "Marshal decimalFloat storeAB (pointsAB @ [bareLine ''B'', bareLine ''A''])"
    unfolding Marshal_def using rangeOrder_AB r21 pointFeatures_AB l21 by blast
  show "pointsAB @ [bareLine ''A'', bareLine ''B''] \<noteq> pointsAB @ [bareLine ''B'', bareLine ''A'']"
    by (simp add: bareLine_def)
qed


text \<open>A store of the anchor \<^verbatim>\<open>A\<close> with two legs from it, \<^verbatim>\<open>C\<close> and \<^verbatim>\<open>D\<close>.\<close>

definition legC :: Station where
  "legC = zeroStation\<lparr>Id := 2, Name := ''C'', FromId := 1, Type := REAL, Lon := 5, Lat := 6\<rparr>"

definition legD :: Station where
  "legD = zeroStation\<lparr>Id := 3, Name := ''D'', FromId := 1, Type := REAL, Lon := 7, Lat := 8\<rparr>"

definition storeFork :: DB where
  "storeFork = Map.empty(1 \<mapsto> anchorA, 2 \<mapsto> legC, 3 \<mapsto> legD)"

definition pointsFork :: "feature list" where
  "pointsFork =
     [Feature (Point 1 2) [(''comment'', Text []), (''depth'', Number 0), (''name'', Text ''A'')],
      Feature (Point 5 6) [(''comment'', Text []), (''depth'', Number 0), (''name'', Text ''C'')],
      Feature (Point 7 8) [(''comment'', Text []), (''depth'', Number 0), (''name'', Text ''D'')]]"

definition forkLine :: "geometry list \<Rightarrow> feature" where
  "forkLine gs = Feature (GeometryCollection gs) [(''name'', Text ''A'')]"

lemma pointFeatures_fork: "pointFeatures decimalFloat storeFork [1, 2, 3] = Some pointsFork"
  by code_simp

lemma rangeOrder_fork: "rangeOrder storeFork [1, 2, 3]"
  by (auto simp: rangeOrder_def storeFork_def)

lemma leaves_fork:
  "\<forall>j t. storeFork j = Some t \<longrightarrow> FromId t \<noteq> 2 \<and> FromId t \<noteq> 3"
  by (auto simp: storeFork_def anchorA_def legC_def legD_def split: if_splits)

lemma fork_lookup:
  "storeFork 1 = Some anchorA" "storeFork 2 = Some legC" "storeFork 3 = Some legD"
  by (simp_all add: storeFork_def)

lemma append_fork:
  "appendStation 1 2 (storeFork, co, reach) = Some (storeFork, co @ [(1, 2), (5, 6)], reach @ [2])"
  "appendStation 1 3 (storeFork, co, reach) = Some (storeFork, co @ [(1, 2), (7, 8)], reach @ [3])"
  by (simp_all add: appendStation_def fork_lookup anchorA_def legC_def legD_def)

lemma visit_fork:
  assumes "rangeStations appendStation 1 ks (storeFork, co', reach') \<sigma>'"
  shows "co' = co @ [(1, 2), (5, 6)] \<Longrightarrow> reach' = reach @ [2]
           \<Longrightarrow> rangeStations appendStation 1 (2 # ks) (storeFork, co, reach) \<sigma>'"
    and "co' = co @ [(1, 2), (7, 8)] \<Longrightarrow> reach' = reach @ [3]
           \<Longrightarrow> rangeStations appendStation 1 (3 # ks) (storeFork, co, reach) \<sigma>'"
proof -
  have ro: "rangeOrder (fst (storeFork, co', reach')) [1, 2, 3]" using rangeOrder_fork by simp
  have lc: "\<forall>j t. fst (storeFork, co', reach') j = Some t \<longrightarrow> FromId t \<noteq> Id legC"
    and ld: "\<forall>j t. fst (storeFork, co', reach') j = Some t \<longrightarrow> FromId t \<noteq> Id legD"
    using leaves_fork by (auto simp: legC_def legD_def)
  have c: "fst (storeFork, co, reach) 2 = Some legC" "FromId legC = 1"
      "fst (storeFork, co', reach') 2 = Some legC"
    and d: "fst (storeFork, co, reach) 3 = Some legD" "FromId legD = 1"
      "fst (storeFork, co', reach') 3 = Some legD"
    by (simp_all add: fork_lookup legC_def legD_def)
  show "rangeStations appendStation 1 (2 # ks) (storeFork, co, reach) \<sigma>'"
    if "co' = co @ [(1, 2), (5, 6)]" "reach' = reach @ [2]"
  proof -
    have "appendStation 1 2 (storeFork, co, reach) = Some (storeFork, co', reach')"
      using that append_fork(1) by simp
    then show ?thesis using range_visit_leaf[OF c(1,2) _ c(3) ro lc assms] by blast
  qed
  show "rangeStations appendStation 1 (3 # ks) (storeFork, co, reach) \<sigma>'"
    if "co' = co @ [(1, 2), (7, 8)]" "reach' = reach @ [3]"
  proof -
    have "appendStation 1 3 (storeFork, co, reach) = Some (storeFork, co', reach')"
      using that append_fork(2) by simp
    then show ?thesis using range_visit_leaf[OF d(1,2) _ d(3) ro ld assms] by blast
  qed
qed

lemma skip_fork:
  assumes "rangeStations appendStation 1 ks (storeFork, co, reach) \<sigma>'"
  shows "rangeStations appendStation 1 (1 # ks) (storeFork, co, reach) \<sigma>'"
  by (rule range_skip[where s = anchorA, OF _ _ assms]) (simp_all add: fork_lookup anchorA_def)

lemma walk_fork_CD:
  "forEachStation appendStation 1 (storeFork, [], [1])
     (storeFork, [(1, 2), (5, 6), (1, 2), (7, 8)], [1, 2, 3])"
proof -
  have "rangeStations appendStation 1 [3] (storeFork, [(1, 2), (5, 6)], [1, 2])
      (storeFork, [(1, 2), (5, 6), (1, 2), (7, 8)], [1, 2, 3])"
    by (rule visit_fork(2)[OF range_nil]) simp_all
  then have "rangeStations appendStation 1 [2, 3] (storeFork, [], [1])
      (storeFork, [(1, 2), (5, 6), (1, 2), (7, 8)], [1, 2, 3])"
    by (rule visit_fork(1)) simp_all
  then have "rangeStations appendStation 1 [1, 2, 3] (storeFork, [], [1])
      (storeFork, [(1, 2), (5, 6), (1, 2), (7, 8)], [1, 2, 3])"
    by (rule skip_fork)
  then show ?thesis using rangeOrder_fork by (intro walk) simp
qed

lemma walk_fork_DC:
  "forEachStation appendStation 1 (storeFork, [], [1])
     (storeFork, [(1, 2), (7, 8), (1, 2), (5, 6)], [1, 3, 2])"
proof -
  have r: "rangeOrder storeFork [1, 3, 2]" by (auto simp: rangeOrder_def storeFork_def)
  have "rangeStations appendStation 1 [2] (storeFork, [(1, 2), (7, 8)], [1, 3])
      (storeFork, [(1, 2), (7, 8), (1, 2), (5, 6)], [1, 3, 2])"
    by (rule visit_fork(1)[OF range_nil]) simp_all
  then have "rangeStations appendStation 1 [3, 2] (storeFork, [], [1])
      (storeFork, [(1, 2), (7, 8), (1, 2), (5, 6)], [1, 3, 2])"
    by (rule visit_fork(2)) simp_all
  then have "rangeStations appendStation 1 [1, 3, 2] (storeFork, [], [1])
      (storeFork, [(1, 2), (7, 8), (1, 2), (5, 6)], [1, 3, 2])"
    by (rule skip_fork)
  then show ?thesis using r by (intro walk) simp
qed

lemma lines_fork:
  assumes "forEachStation appendStation 1 (storeFork, [], [1]) (storeFork, co, reach)"
  shows "anchorLines storeFork [1, 2, 3] ([], []) ([forkLine (segments co)], reach)"
proof -
  have "anchorLines storeFork [] ([forkLine (segments co)], reach) ([forkLine (segments co)], reach)"
    by (rule lines_nil)
  then have "anchorLines storeFork [3] ([forkLine (segments co)], reach) ([forkLine (segments co)], reach)"
    by (rule lines_skip[where s = legD, rotated 2]) (simp_all add: fork_lookup legD_def START_def REAL_def)
  then have "anchorLines storeFork [2, 3] ([forkLine (segments co)], reach) ([forkLine (segments co)], reach)"
    by (rule lines_skip[where s = legC, rotated 2]) (simp_all add: fork_lookup legC_def START_def REAL_def)
  then show ?thesis
    using assms
      lines_anchor[where db = storeFork and k = 1 and s = anchorA and reach = "[]" and ?db1.0 = storeFork
        and co = co and ?reach1.0 = reach and fs = "[]" and ks = "[2, 3]"
        and acc' = "([forkLine (segments co)], reach)"]
    by (simp add: fork_lookup anchorA_def forkLine_def)
qed

text \<open>
  The order of the segments under one anchor follows the range inside \<open>forEachStation\<close>:
  on the store of the anchor with two legs a call can return the segment to \<^verbatim>\<open>C\<close> before
  the segment to \<^verbatim>\<open>D\<close>, and a call can return them the other way round.
\<close>

lemma Marshal_segments_vary:
  "Marshal decimalFloat storeFork
     (pointsFork @ [forkLine [LineString [(1, 2), (5, 6)], LineString [(1, 2), (7, 8)]]]) \<and>
   Marshal decimalFloat storeFork
     (pointsFork @ [forkLine [LineString [(1, 2), (7, 8)], LineString [(1, 2), (5, 6)]]])"
proof (intro conjI)
  show "Marshal decimalFloat storeFork
     (pointsFork @ [forkLine [LineString [(1, 2), (5, 6)], LineString [(1, 2), (7, 8)]]])"
    unfolding Marshal_def
    using rangeOrder_fork pointFeatures_fork lines_fork[OF walk_fork_CD] by (simp, blast)
  show "Marshal decimalFloat storeFork
     (pointsFork @ [forkLine [LineString [(1, 2), (7, 8)], LineString [(1, 2), (5, 6)]]])"
    unfolding Marshal_def
    using rangeOrder_fork pointFeatures_fork lines_fork[OF walk_fork_DC] by (simp, blast)
qed

text \<open>
  Claim C3 says that two calls of \<open>Marshal\<close> on the same store give the same text, the
  order of the line features of the anchors and the order of the segments under an anchor
  included. Both orders follow a range over the map, which Go leaves open. On the store
  of the anchors \<^verbatim>\<open>A\<close> and \<^verbatim>\<open>B\<close> a call can return the line feature of \<^verbatim>\<open>A\<close> before
  that of \<^verbatim>\<open>B\<close>, and a call can return them the other way round; on the store of the
  anchor with two legs a call can return the segment to \<^verbatim>\<open>C\<close> before the segment to
  \<^verbatim>\<open>D\<close>, and a call can return them the other way round.
\<close>

theorem Marshal_order_varies:
  "Marshal decimalFloat storeAB (pointsAB @ [bareLine ''A'', bareLine ''B'']) \<and>
   Marshal decimalFloat storeAB (pointsAB @ [bareLine ''B'', bareLine ''A'']) \<and>
   pointsAB @ [bareLine ''A'', bareLine ''B''] \<noteq> pointsAB @ [bareLine ''B'', bareLine ''A''] \<and>
   Marshal decimalFloat storeFork
     (pointsFork @ [forkLine [LineString [(1, 2), (5, 6)], LineString [(1, 2), (7, 8)]]]) \<and>
   Marshal decimalFloat storeFork
     (pointsFork @ [forkLine [LineString [(1, 2), (7, 8)], LineString [(1, 2), (5, 6)]]]) \<and>
   pointsFork @ [forkLine [LineString [(1, 2), (5, 6)], LineString [(1, 2), (7, 8)]]] \<noteq>
   pointsFork @ [forkLine [LineString [(1, 2), (7, 8)], LineString [(1, 2), (5, 6)]]]"
proof -
  have "pointsFork @ [forkLine [LineString [(1, 2), (5, 6)], LineString [(1, 2), (7, 8)]]] \<noteq>
      pointsFork @ [forkLine [LineString [(1, 2), (7, 8)], LineString [(1, 2), (5, 6)]]]"
    by (simp add: forkLine_def)
  then show ?thesis using Marshal_anchors_vary Marshal_segments_vary by blast
qed

text \<open>A store of two anchors that are both named \<^verbatim>\<open>START\<close>.\<close>

definition startOne :: Station where
  "startOne = zeroStation\<lparr>Id := 1, Name := ''START'', FromId := - 1, Type := START, Lon := 1, Lat := 2\<rparr>"

definition startTwo :: Station where
  "startTwo = zeroStation\<lparr>Id := 2, Name := ''START'', FromId := - 1, Type := START, Lon := 3, Lat := 4\<rparr>"

definition storeStarts :: DB where
  "storeStarts = Map.empty(1 \<mapsto> startOne, 2 \<mapsto> startTwo)"

definition pointStart :: "real \<Rightarrow> real \<Rightarrow> feature" where
  "pointStart lon lat =
     Feature (Point lon lat) [(''comment'', Text []), (''depth'', Number 0), (''name'', Text ''START'')]"

lemma pointFeatures_starts:
  "pointFeatures decimalFloat storeStarts [1, 2] = Some [pointStart 3 4, pointStart 3 4]"
  "pointFeatures decimalFloat storeStarts [2, 1] = Some [pointStart 1 2, pointStart 1 2]"
  by code_simp+

lemma no_children_starts:
  "\<forall>k s. storeStarts k = Some s \<longrightarrow> FromId s \<noteq> Id startOne \<and> FromId s \<noteq> Id startTwo"
  by (auto simp: storeStarts_def startOne_def startTwo_def split: if_splits)

text \<open>
  Claim C4 says that \<open>Marshal\<close> gives every station a point feature with that station's own
  coordinate, also when several stations are named \<^verbatim>\<open>START\<close>. The code looks the
  coordinate up by name, in a map that keeps one station for a name. On the store of the
  two anchors named \<^verbatim>\<open>START\<close>, at (1, 2) and at (3, 4), a range has one of two orders;
  under the one both point features are at (3, 4), under the other both are at (1, 2),
  and these are collections that \<open>Marshal\<close> returns.
\<close>

theorem Marshal_duplicate_names:
  "{ks. rangeOrder storeStarts ks} = {[1, 2], [2, 1]} \<and>
   pointFeatures decimalFloat storeStarts [1, 2] = Some [pointStart 3 4, pointStart 3 4] \<and>
   pointFeatures decimalFloat storeStarts [2, 1] = Some [pointStart 1 2, pointStart 1 2] \<and>
   Marshal decimalFloat storeStarts
     [pointStart 3 4, pointStart 3 4, bareLine ''START'', bareLine ''START''] \<and>
   Marshal decimalFloat storeStarts
     [pointStart 1 2, pointStart 1 2, bareLine ''START'', bareLine ''START'']"
proof -
  have "dom storeStarts = {1, 2}" by (auto simp: storeStarts_def)
  then have orders: "{ks. rangeOrder storeStarts ks} = {[1, 2], [2, 1]}"
    by (intro rangeOrder_two) auto
  then have r12: "rangeOrder storeStarts [1, 2]" and r21: "rangeOrder storeStarts [2, 1]"
    by blast+
  have a: "storeStarts 1 = Some startOne" "Type startOne = START"
    and b: "storeStarts 2 = Some startTwo" "Type startTwo = START"
    by (simp_all add: storeStarts_def startOne_def startTwo_def)
  have "anchorLines storeStarts [1, 2] ([], [])
      ([bareLine (Name startOne), bareLine (Name startTwo)], [Id startOne, Id startTwo])"
    using anchorLines_bare[OF r12 a b] no_children_starts by blast
  then have l: "anchorLines storeStarts [1, 2] ([], []) ([bareLine ''START'', bareLine ''START''], [1, 2])"
    by (simp add: startOne_def startTwo_def)
  have m1: "Marshal decimalFloat storeStarts
      ([pointStart 3 4, pointStart 3 4] @ [bareLine ''START'', bareLine ''START''])"
    unfolding Marshal_def using r12 pointFeatures_starts(1) l by blast
  have m2: "Marshal decimalFloat storeStarts
      ([pointStart 1 2, pointStart 1 2] @ [bareLine ''START'', bareLine ''START''])"
    unfolding Marshal_def using r12 r21 pointFeatures_starts(2) l by blast
  show ?thesis using orders pointFeatures_starts m1 m2 by simp
qed

section \<open>Properties of PropagateLocation\<close>





























end
